theory Spec2Isabelle
  imports Complex_Main
begin

section \<open>Values exchanged with the platform\<close>

text \<open>
  The script \<^verbatim>\<open>app.js\<close> is glue between three collaborators: the media-capture API,
  the MobileNet classifier and the page's DOM. Text is held as a \<^typ>\<open>string\<close> of bytes
  in UTF-8: every literal of the script that the development uses is ASCII, apart from
  the dash of the list entries, which is the three bytes of U+2014.
\<close>

datatype track_state = Live | Ended

record device =
  kind :: string
  label :: string
  deviceId :: string

text \<open>
  A probability is a finite, non-negative IEEE double, kept as the exact pair of an
  integer significand and a binary exponent: \<open>Number m e\<close> stands for \<open>m * 2 ^ e\<close>, with
  \<open>m < 2 ^ 53\<close> and \<open>- 1074 \<le> e\<close>. The classifier delivers values between 0 and 1.
\<close>

datatype number = Number (significand: nat) (exponent: int)

record prediction =
  className :: string
  probability :: number

datatype error = NoVideoDevices | PlatformError string

section \<open>Device selection (the fallback of \<^verbatim>\<open>startCamera\<close>)\<close>

text \<open>
  \<^verbatim>\<open>const backRegex = /back|rear|environment|trasera|posterior/i;\<close>
  The expression has no anchors and no \<^verbatim>\<open>g\<close> flag, so \<^verbatim>\<open>backRegex.test(l)\<close> holds when one
  of the five words occurs somewhere in \<^verbatim>\<open>l\<close>. Under the \<^verbatim>\<open>i\<close> flag (without \<^verbatim>\<open>u\<close>) both
  sides are canonicalised letter by letter, and a code unit above 127 is never mapped
  into ASCII, so comparing after folding the ASCII capitals is the same test.
\<close>

definition lower :: "char \<Rightarrow> char" where
  "lower c =
     (case map_of (zip ''ABCDEFGHIJKLMNOPQRSTUVWXYZ'' ''abcdefghijklmnopqrstuvwxyz'') c of
        Some l \<Rightarrow> l
      | None \<Rightarrow> c)"

fun starts_with :: "string \<Rightarrow> string \<Rightarrow> bool" where
  "starts_with [] cs = True"
| "starts_with (k # ks) [] = False"
| "starts_with (k # ks) (c # cs) = (k = c \<and> starts_with ks cs)"

fun occurs_in :: "string \<Rightarrow> string \<Rightarrow> bool" where
  "occurs_in k [] = (k = [])"
| "occurs_in k (c # cs) = (starts_with k (c # cs) \<or> occurs_in k cs)"

definition back_words :: "string list" where
  "back_words = [''back'', ''rear'', ''environment'', ''trasera'', ''posterior'']"

definition backRegex_test :: "string \<Rightarrow> bool" where
  "backRegex_test l = list_ex (\<lambda>k. occurs_in k (map lower l)) back_words"

text \<open>\<^verbatim>\<open>devices.filter(d => d.kind === 'videoinput')\<close>\<close>

definition videoDevices :: "device list \<Rightarrow> device list" where
  "videoDevices devices = filter (\<lambda>d. kind d = ''videoinput'') devices"

text \<open>
  \<^verbatim>\<open>let chosen = videoDevices.find(d => backRegex.test(d.label));\<close>
  \<^verbatim>\<open>if (!chosen) chosen = videoDevices[videoDevices.length - 1];\<close>
  The script reaches these lines only with a non-empty list (it throws before, on an
  empty one); on the empty list the index reads \<^verbatim>\<open>undefined\<close>, which is \<open>None\<close> here.
\<close>

definition chosen :: "device list \<Rightarrow> device option" where
  "chosen vds =
     (case find (\<lambda>d. backRegex_test (label d)) vds of
        Some d \<Rightarrow> Some d
      | None \<Rightarrow> (if vds = [] then None else Some (vds ! (length vds - 1))))"

text \<open>The claim's words: a label matches when it contains, in any letter case, one of the keywords.\<close>

definition matches_keyword :: "string \<Rightarrow> bool" where
  "matches_keyword l = (\<exists>k \<in> set back_words. \<exists>u v. map lower l = u @ k @ v)"

section \<open>Number formatting (\<^verbatim>\<open>(p.probability * 100).toFixed(2)\<close>)\<close>

text \<open>
  The product of two doubles is the exact product rounded to the nearest double, ties
  to the even significand. \<open>round53 M e\<close> rounds the exact value \<open>M * 2 ^ e\<close> to 53
  significant bits; with \<open>- 1074 \<le> e\<close> the result is a double, and with a probability of
  at most 1 the product is far from overflow.
\<close>

fun bitlen :: "nat \<Rightarrow> nat" where
  "bitlen n = (if n = 0 then 0 else Suc (bitlen (n div 2)))"

declare bitlen.simps [simp del]

definition round53 :: "nat \<Rightarrow> int \<Rightarrow> number" where
  "round53 M e =
     (if bitlen M \<le> 53 then Number M e
      else let k = bitlen M - 53;
               q = M div 2 ^ k;
               r = M mod 2 ^ k;
               half = 2 ^ (k - 1)
           in Number (if half < r \<or> (r = half \<and> odd q) then q + 1 else q) (e + int k))"

text \<open>The double 100 is \<open>25 * 2 ^ 2\<close>.\<close>

definition times100 :: "number \<Rightarrow> number" where
  "times100 x = round53 (significand x * 25) (exponent x + 2)"

text \<open>
  \<^verbatim>\<open>toFixed(2)\<close> on a value \<open>x\<close> below \<open>10 ^ 21\<close>: take the integer \<open>n\<close> for which \<open>n / 100 - x\<close> is
  closest to zero, the larger one of two; write its decimal digits, padded with zeros
  to three digits, and put the point before the last two.
\<close>

definition nearest_hundredths :: "number \<Rightarrow> nat" where
  "nearest_hundredths x =
     (if 0 \<le> exponent x then significand x * 2 ^ nat (exponent x) * 100
      else (200 * significand x + 2 ^ nat (- exponent x)) div (2 * 2 ^ nat (- exponent x)))"

definition digit :: "nat \<Rightarrow> char" where
  "digit d = ''0123456789'' ! d"

fun digits :: "nat \<Rightarrow> string" where
  "digits n = (if n < 10 then [digit n] else digits (n div 10) @ [digit (n mod 10)])"

declare digits.simps [simp del]

definition toFixed2 :: "number \<Rightarrow> string" where
  "toFixed2 x =
     (let n = nearest_hundredths x;
          m = digits n;
          m = (if length m \<le> 2 then replicate (3 - length m) (CHR ''0'') @ m else m)
      in take (length m - 2) m @ ''.'' @ drop (length m - 2) m)"

section \<open>The results list (\<^verbatim>\<open>updatePredictions\<close>)\<close>

text \<open>The separator of the template literal: a space, U+2014 in UTF-8, a space.\<close>

definition dash :: string where
  "dash = [CHR '' '', CHR 0xE2, CHR 0x80, CHR 0x94, CHR '' '']"

text \<open>
  The template literal of \<^verbatim>\<open>updatePredictions\<close>: \<^verbatim>\<open>p.className\<close>, the separator,
  \<^verbatim>\<open>(p.probability * 100).toFixed(2)\<close> and a percent sign.
\<close>

definition textContent :: "prediction \<Rightarrow> string" where
  "textContent p = className p @ dash @ toFixed2 (times100 (probability p)) @ ''%''"

text \<open>
  The list element is modelled by the texts of its \<^verbatim>\<open>li\<close> children, in document order.
  \<^verbatim>\<open>while (predictionsList.firstChild) predictionsList.removeChild(predictionsList.firstChild);\<close>
\<close>

fun removeChildren :: "string list \<Rightarrow> string list" where
  "removeChildren [] = []"
| "removeChildren (li # lis) = removeChildren lis"

definition appendChild :: "string \<Rightarrow> string list \<Rightarrow> string list" where
  "appendChild li lis = lis @ [li]"

text \<open>
  The argument is \<open>None\<close> for \<^verbatim>\<open>null\<close> or \<^verbatim>\<open>undefined\<close> and \<open>Some ps\<close> for an array.
  This is the function on the list element alone; \<open>updatePredictions\<close> below applies it
  to the page.
\<close>

definition render :: "prediction list option \<Rightarrow> string list \<Rightarrow> string list" where
  "render preds lis =
     (let cleared = removeChildren lis in
      case preds of
        None \<Rightarrow> appendChild ''No hay predicciones'' cleared
      | Some ps \<Rightarrow>
          if length ps = 0 then appendChild ''No hay predicciones'' cleared
          else fold (\<lambda>p acc. appendChild (textContent p) acc) ps cleared)"

section \<open>The page, the platform and the script's variables\<close>

text \<open>
  An \<^verbatim>\<open>async\<close> function of the script runs until its next \<^verbatim>\<open>await\<close> on a promise of the
  platform and is then suspended; it goes on in a later task, when the platform settles
  the promise. A suspended call is kept as a value of \<open>await\<close>, which names the place
  where it goes on. \<open>AwaitLoad k\<close> is \<^verbatim>\<open>loadModel\<close> waiting for the \<open>k\<close>-th call of
  \<^verbatim>\<open>window.mobilenet.load()\<close>; \<open>AwaitClassify first\<close> is \<^verbatim>\<open>runOnce\<close> waiting for
  \<^verbatim>\<open>model.classify(videoEl)\<close>, with \<open>first\<close> when it was called by \<^verbatim>\<open>startPredictions\<close> (which
  awaits it and then sets the interval) and not by the timer.
\<close>

datatype await =
    AwaitFacingMode
  | AwaitEnumerate
  | AwaitDeviceId string
  | AwaitPlay
  | AwaitLoad nat
  | AwaitClassify bool

datatype log =
    Warn_facingMode error
  | Error_camera error
  | Warn_play error
  | Error_srcObject
  | Error_mobilenet error
  | Error_no_model
  | Error_classify error

datatype alert = Alert_unavailable | Alert_camera error

text \<open>
  The first three fields are the script's \<^verbatim>\<open>let\<close> variables; a stream, a model and a
  timer are held by their identity (streams are numbered by their place in \<open>streams\<close>,
  a model by the call of \<^verbatim>\<open>load\<close> that made it, timers by the handle \<^verbatim>\<open>setInterval\<close> returns,
  which is a positive integer and so truthy). Then the elements of the page:
  \<^verbatim>\<open>videoEl\<close> (\<open>srcObject\<close>, \<open>src\<close>, \<open>muted\<close>, \<open>paused\<close>), the \<^verbatim>\<open>h3\<close> of \<^verbatim>\<open>resultsEl\<close> (\<open>None\<close> when
  the page has none) and the children of \<^verbatim>\<open>predictionsList\<close>. The rest is the platform:
  whether \<^verbatim>\<open>navigator.mediaDevices.getUserMedia\<close> exists, whether assigning
  \<^verbatim>\<open>videoEl.srcObject\<close> throws, the tracks of every stream handed out, the running interval
  timers, the number of calls of \<^verbatim>\<open>mobilenet.load\<close>, the suspended calls, the console and
  the alerts shown.
\<close>

record state =
  currentStream :: "nat option"
  model :: "nat option"
  predictInterval :: "nat option"
  srcObject :: "nat option"
  src :: "string option"
  muted :: bool
  paused :: bool
  h3 :: "string option"
  predictionsList :: "string list"
  mediaDevices :: bool
  srcObject_throws :: bool
  streams :: "track_state list list"
  timers :: "nat list"
  next_timer :: nat
  loads :: nat
  pending :: "await list"
  console :: "log list"
  alerts :: "alert list"

section \<open>The prediction loop\<close>

definition updatePredictions :: "prediction list option \<Rightarrow> state \<Rightarrow> state" where
  "updatePredictions preds s = s\<lparr>predictionsList := render preds (predictionsList s)\<rparr>"

text \<open>\<^verbatim>\<open>predictInterval = setInterval(runOnce, PREDICTION_INTERVAL);\<close>\<close>

definition setInterval :: "state \<Rightarrow> state" where
  "setInterval s =
     s\<lparr>predictInterval := Some (next_timer s),
       timers := timers s @ [next_timer s],
       next_timer := Suc (next_timer s)\<rparr>"

text \<open>
  \<^verbatim>\<open>runOnce\<close> up to its \<^verbatim>\<open>await\<close>. With no model the call \<^verbatim>\<open>model.classify\<close> throws a
  TypeError inside the \<^verbatim>\<open>try\<close>, which is logged, and \<^verbatim>\<open>runOnce\<close> is over at once.
\<close>

definition runOnce :: "bool \<Rightarrow> state \<Rightarrow> state" where
  "runOnce first s =
     (case model s of
        Some m \<Rightarrow> s\<lparr>pending := pending s @ [AwaitClassify first]\<rparr>
      | None \<Rightarrow>
          (let s1 = s\<lparr>console := console s @ [Error_classify (PlatformError ''TypeError'')]\<rparr>
           in if first then setInterval s1 else s1))"

text \<open>\<^verbatim>\<open>runOnce\<close> after its \<^verbatim>\<open>await\<close>, and for the first pass the rest of \<^verbatim>\<open>startPredictions\<close>.\<close>

definition runOnce_resume :: "bool \<Rightarrow> error + prediction list option \<Rightarrow> state \<Rightarrow> state" where
  "runOnce_resume first r s =
     (let s1 = (case r of
                  Inr preds \<Rightarrow> updatePredictions preds s
                | Inl err \<Rightarrow> s\<lparr>console := console s @ [Error_classify err]\<rparr>)
      in if first then setInterval s1 else s1)"

datatype completion = Returned nat | Thrown error | Suspended

definition loadModel :: "state \<Rightarrow> completion \<times> state" where
  "loadModel s =
     (case model s of
        Some m \<Rightarrow> (Returned m, s)
      | None \<Rightarrow>
          (case h3 s of
             None \<Rightarrow>
               (Thrown (PlatformError ''TypeError''),
                s\<lparr>console := console s @ [Error_mobilenet (PlatformError ''TypeError'')]\<rparr>)
           | Some old \<Rightarrow>
               (Suspended,
                s\<lparr>h3 := Some ''Cargando modelo...'',
                  loads := Suc (loads s),
                  pending := pending s @ [AwaitLoad (loads s)]\<rparr>)))"

definition loadModel_resume :: "nat \<Rightarrow> error + unit \<Rightarrow> state \<Rightarrow> completion \<times> state" where
  "loadModel_resume k r s =
     (case r of
        Inr u \<Rightarrow>
          (let s1 = s\<lparr>model := Some k\<rparr> in
           case h3 s1 of
             Some old \<Rightarrow> (Returned k, s1\<lparr>h3 := Some ''Modelo cargado''\<rparr>)
           | None \<Rightarrow>
               (Thrown (PlatformError ''TypeError''),
                s1\<lparr>console := console s1 @ [Error_mobilenet (PlatformError ''TypeError'')]\<rparr>))
      | Inl err \<Rightarrow>
          (let s1 = s\<lparr>console := console s @ [Error_mobilenet err]\<rparr> in
           case h3 s1 of
             Some old \<Rightarrow> (Thrown err, s1\<lparr>h3 := Some ''Error cargando modelo''\<rparr>)
           | None \<Rightarrow> (Thrown (PlatformError ''TypeError''), s1)))"

text \<open>\<^verbatim>\<open>startPredictions\<close> from the end of \<^verbatim>\<open>await loadModel()\<close>.\<close>

definition startPredictions_loaded :: "completion \<times> state \<Rightarrow> state" where
  "startPredictions_loaded cs =
     (case cs of
        (Suspended, s) \<Rightarrow> s
      | (Thrown err, s) \<Rightarrow> s\<lparr>console := console s @ [Error_no_model]\<rparr>
      | (Returned m, s) \<Rightarrow> (if predictInterval s \<noteq> None then s else runOnce True s))"

definition startPredictions :: "state \<Rightarrow> state" where
  "startPredictions s =
     (if currentStream s = None then s else startPredictions_loaded (loadModel s))"

definition startPredictions_resume :: "nat \<Rightarrow> error + unit \<Rightarrow> state \<Rightarrow> state" where
  "startPredictions_resume k r s = startPredictions_loaded (loadModel_resume k r s)"

definition stopPredictions :: "state \<Rightarrow> state" where
  "stopPredictions s =
     updatePredictions (Some [])
       (case predictInterval s of
          Some h \<Rightarrow> s\<lparr>timers := removeAll h (timers s), predictInterval := None\<rparr>
        | None \<Rightarrow> s)"

section \<open>The stream\<close>

definition stopCamera :: "state \<Rightarrow> state" where
  "stopCamera s =
     (case currentStream s of
        None \<Rightarrow> s
      | Some c \<Rightarrow>
          (let s1 = s\<lparr>streams := (streams s)[c := map (\<lambda>track. Ended) (streams s ! c)]\<rparr>;
               s2 = s1\<lparr>currentStream := None\<rparr>;
               s3 = s2\<lparr>paused := True\<rparr>;
               s4 = (if srcObject_throws s3 then s3\<lparr>src := None\<rparr> else s3\<lparr>srcObject := None\<rparr>)
           in stopPredictions s4))"

definition attachStream :: "nat \<Rightarrow> state \<Rightarrow> state" where
  "attachStream stream s =
     (let s1 = (if currentStream s \<noteq> None then stopCamera s else s);
          s2 = s1\<lparr>currentStream := Some stream\<rparr>
      in if srcObject_throws s2 then s2\<lparr>console := console s2 @ [Error_srcObject]\<rparr>
         else startPredictions
                (s2\<lparr>srcObject := Some stream, muted := True, pending := pending s2 @ [AwaitPlay]\<rparr>))"

text \<open>The platform resolves \<^verbatim>\<open>getUserMedia\<close> with a new stream of \<open>n\<close> live tracks.\<close>

definition new_stream :: "nat \<Rightarrow> state \<Rightarrow> nat \<times> state" where
  "new_stream n s = (length (streams s), s\<lparr>streams := streams s @ [replicate n Live]\<rparr>)"

definition camera_failed :: "error \<Rightarrow> state \<Rightarrow> state" where
  "camera_failed err s =
     s\<lparr>console := console s @ [Error_camera err], alerts := alerts s @ [Alert_camera err]\<rparr>"

definition startCamera :: "state \<Rightarrow> state" where
  "startCamera s =
     (if \<not> mediaDevices s then s\<lparr>alerts := alerts s @ [Alert_unavailable]\<rparr>
      else s\<lparr>pending := pending s @ [AwaitFacingMode]\<rparr>)"

definition startCamera_facingMode :: "error + nat \<Rightarrow> state \<Rightarrow> state" where
  "startCamera_facingMode r s =
     (case r of
        Inr n \<Rightarrow> (case new_stream n s of (stream, s1) \<Rightarrow> attachStream stream s1)
      | Inl err \<Rightarrow>
          s\<lparr>console := console s @ [Warn_facingMode err], pending := pending s @ [AwaitEnumerate]\<rparr>)"

definition startCamera_enumerated :: "error + device list \<Rightarrow> state \<Rightarrow> state" where
  "startCamera_enumerated r s =
     (case r of
        Inl err \<Rightarrow> camera_failed err s
      | Inr devices \<Rightarrow>
          (if length (videoDevices devices) = 0 then camera_failed NoVideoDevices s
           else case chosen (videoDevices devices) of
                  None \<Rightarrow> camera_failed (PlatformError ''TypeError'') s
                | Some d \<Rightarrow> s\<lparr>pending := pending s @ [AwaitDeviceId (deviceId d)]\<rparr>))"

definition startCamera_deviceId :: "error + nat \<Rightarrow> state \<Rightarrow> state" where
  "startCamera_deviceId r s =
     (case r of
        Inr n \<Rightarrow> (case new_stream n s of (stream, s1) \<Rightarrow> attachStream stream s1)
      | Inl err \<Rightarrow> camera_failed err s)"

section \<open>Tasks of the event loop\<close>

text \<open>
  Each event is one task: a handler of the page, a call from the console of one of the
  two exported functions, the settling of one promise of the platform (the \<open>i\<close>-th
  suspended call goes on), or a tick of an interval timer. A task runs to its end,
  together with the continuations that need no further answer of the platform. An
  outcome that the awaited promise cannot have is no event: the state stays.
\<close>

datatype outcome =
    Stream nat
  | Devices "device list"
  | Played
  | Loaded
  | Classified "prediction list option"
  | Rejected error

datatype event =
    DOMContentLoaded
  | VisibilityChange bool
  | CallStartCamera
  | CallStopCamera
  | Settle nat outcome
  | Tick nat

definition initializing :: string where
  "initializing = ''Inicializando c'' @ [CHR 0xC3, CHR 0xA1] @ ''mara y modelo...''"

definition settle :: "await \<Rightarrow> outcome \<Rightarrow> state \<Rightarrow> state option" where
  "settle a out s =
     (case a of
        AwaitFacingMode \<Rightarrow>
          (case out of
             Stream n \<Rightarrow> Some (startCamera_facingMode (Inr n) s)
           | Rejected err \<Rightarrow> Some (startCamera_facingMode (Inl err) s)
           | _ \<Rightarrow> None)
      | AwaitEnumerate \<Rightarrow>
          (case out of
             Devices ds \<Rightarrow> Some (startCamera_enumerated (Inr ds) s)
           | Rejected err \<Rightarrow> Some (startCamera_enumerated (Inl err) s)
           | _ \<Rightarrow> None)
      | AwaitDeviceId d \<Rightarrow>
          (case out of
             Stream n \<Rightarrow> Some (startCamera_deviceId (Inr n) s)
           | Rejected err \<Rightarrow> Some (startCamera_deviceId (Inl err) s)
           | _ \<Rightarrow> None)
      | AwaitPlay \<Rightarrow>
          (case out of
             Played \<Rightarrow> Some (s\<lparr>paused := False\<rparr>)
           | Rejected err \<Rightarrow> Some (s\<lparr>console := console s @ [Warn_play err]\<rparr>)
           | _ \<Rightarrow> None)
      | AwaitLoad k \<Rightarrow>
          (case out of
             Loaded \<Rightarrow> Some (startPredictions_resume k (Inr ()) s)
           | Rejected err \<Rightarrow> Some (startPredictions_resume k (Inl err) s)
           | _ \<Rightarrow> None)
      | AwaitClassify first \<Rightarrow>
          (case out of
             Classified preds \<Rightarrow> Some (runOnce_resume first (Inr preds) s)
           | Rejected err \<Rightarrow> Some (runOnce_resume first (Inl err) s)
           | _ \<Rightarrow> None))"

definition remove_nth :: "nat \<Rightarrow> 'a list \<Rightarrow> 'a list" where
  "remove_nth i xs = take i xs @ drop (Suc i) xs"

fun step :: "event \<Rightarrow> state \<Rightarrow> state" where
  "step DOMContentLoaded s =
     startCamera (case h3 s of Some old \<Rightarrow> s\<lparr>h3 := Some initializing\<rparr> | None \<Rightarrow> s)"
| "step (VisibilityChange hidden) s =
     (if hidden then (if currentStream s \<noteq> None then stopCamera s else s) else s)"
| "step CallStartCamera s = startCamera s"
| "step CallStopCamera s = stopCamera s"
| "step (Settle i out) s =
     (if i < length (pending s) then
        (case settle (pending s ! i) out (s\<lparr>pending := remove_nth i (pending s)\<rparr>) of
           Some s' \<Rightarrow> s'
         | None \<Rightarrow> s)
      else s)"
| "step (Tick h) s = (if h \<in> set (timers s) then runOnce False s else s)"

definition run :: "event list \<Rightarrow> state \<Rightarrow> state" where
  "run evs s = fold step evs s"

text \<open>
  The state in which the script is loaded: nothing acquired, nothing suspended. The
  page's markup and the platform's abilities are free.
\<close>

definition boot :: "state \<Rightarrow> bool" where
  "boot s = (currentStream s = None \<and> model s = None \<and> predictInterval s = None \<and>
     streams s = [] \<and> timers s = [] \<and> 0 < next_timer s \<and> loads s = 0 \<and> pending s = [])"

definition page :: state where
  "page = \<lparr>currentStream = None, model = None, predictInterval = None,
     srcObject = None, src = None, muted = False, paused = True,
     h3 = Some ''Resultados'', predictionsList = [],
     mediaDevices = True, srcObject_throws = False,
     streams = [], timers = [], next_timer = 1, loads = 0, pending = [],
     console = [], alerts = []\<rparr>"

section \<open>Specification-level notions\<close>

text \<open>The exact value of a number.\<close>

definition value_of :: "number \<Rightarrow> rat" where
  "value_of x =
     (if 0 \<le> exponent x then of_nat (significand x) * 2 ^ nat (exponent x)
      else of_nat (significand x) / 2 ^ nat (- exponent x))"

text \<open>
  ``Formatted to 2 decimals'': the value rounded to the nearest hundredth (half up),
  written as its integer part, a point and two decimals.
\<close>

definition two_decimals :: "number \<Rightarrow> string" where
  "two_decimals x =
     (let n = nat \<lfloor>100 * value_of x + 1 / 2\<rfloor>
      in digits (n div 100) @ ''.'' @ [digit (n div 10 mod 10), digit (n mod 10)])"

text \<open>
  The probabilities the classifier delivers: doubles between 0 and 1. On this range the
  product with 100 stays below \<open>10 ^ 21\<close>, where \<^verbatim>\<open>toFixed\<close> writes plain digits.
\<close>

definition is_probability :: "number \<Rightarrow> bool" where
  "is_probability x = (significand x < 2 ^ 53 \<and> - 1074 \<le> exponent x \<and> value_of x \<le> 1)"

text \<open>
  The product \<^verbatim>\<open>x * 100\<close> of doubles, in the words of IEEE 754: the exact product is
  \<open>25 * m * 2 ^ (e + 2)\<close>; with \<open>k\<close> the number of bits by which \<open>25 * m\<close> exceeds 53 bits,
  the result is \<open>q * 2 ^ (e + 2 + k)\<close> for the integer \<open>q\<close> nearest to \<open>25 * m / 2 ^ k\<close>, the even
  one of two.
\<close>

definition rounded_product :: "number \<Rightarrow> number \<Rightarrow> bool" where
  "rounded_product x y =
     (\<exists>k. 25 * significand x < 2 ^ (53 + k)
        \<and> (k = 0 \<or> 2 ^ (52 + k) \<le> 25 * significand x)
        \<and> exponent y = exponent x + 2 + int k
        \<and> 2 * \<bar>int (significand y) * 2 ^ k - int (25 * significand x)\<bar> \<le> 2 ^ k
        \<and> (2 * \<bar>int (significand y) * 2 ^ k - int (25 * significand x)\<bar> = 2 ^ k
               \<longrightarrow> even (significand y)))"

text \<open>Every stream with a live track is the one stored in \<^verbatim>\<open>currentStream\<close>.\<close>

definition streams_ok :: "state \<Rightarrow> bool" where
  "streams_ok s =
     (\<forall>sid < length (streams s). Live \<in> set (streams s ! sid) \<longrightarrow> currentStream s = Some sid)"

text \<open>The model \<open>m\<close> is cached after \<open>n\<close> calls of \<^verbatim>\<open>mobilenet.load\<close>, and no call of it is under way.\<close>

definition cached :: "nat \<Rightarrow> nat \<Rightarrow> state \<Rightarrow> bool" where
  "cached m n s = (model s = Some m \<and> loads s = n \<and> (\<forall>k. AwaitLoad k \<notin> set (pending s)))"

text \<open>
  Without a model there is no timer and no classification under way; and \<^verbatim>\<open>loadModel\<close>
  waits for the platform only on a page that has the status heading.
\<close>

definition sound :: "state \<Rightarrow> bool" where
  "sound s =
     ((model s = None \<longrightarrow>
         predictInterval s = None \<and> timers s = [] \<and>
         (\<forall>first. AwaitClassify first \<notin> set (pending s)))
      \<and> ((\<exists>k. AwaitLoad k \<in> set (pending s)) \<longrightarrow> h3 s \<noteq> None))"

section \<open>The results list and the number format\<close>

lemma removeChildren_Nil: "removeChildren lis = []"
  by (induction lis) simp_all

lemma fold_appendChild: "fold (\<lambda>p acc. appendChild (f p) acc) ps acc = acc @ map f ps"
  by (induction ps arbitrary: acc) (simp_all add: appendChild_def)

lemma render_eq:
  "render preds lis =
     (case preds of None \<Rightarrow> [''No hay predicciones'']
      | Some ps \<Rightarrow> if ps = [] then [''No hay predicciones''] else map textContent ps)"
  by (simp add: render_def removeChildren_Nil fold_appendChild appendChild_def split: option.splits)

lemma digit_0: "digit 0 = CHR ''0''"
  by (simp add: digit_def)

lemma digits_two: "100 \<le> n \<Longrightarrow> digits n = digits (n div 100) @ [digit (n div 10 mod 10), digit (n mod 10)]"
proof -
  assume n: "100 \<le> n"
  then have a: "digits n = digits (n div 10) @ [digit (n mod 10)]"
    by (subst digits.simps) simp
  from n have "10 \<le> n div 10" by simp
  then have b: "digits (n div 10) = digits (n div 10 div 10) @ [digit (n div 10 mod 10)]"
    by (subst digits.simps) simp
  have "n div 10 div 10 = n div 100" by (simp add: div_mult2_eq)
  with a b show ?thesis by simp
qed

lemma length_digits: "2 < length (digits n) \<longleftrightarrow> 100 \<le> n"
proof (cases "100 \<le> n")
  case True
  have "0 < length (digits (n div 100))" by (subst digits.simps) simp
  with True show ?thesis by (simp add: digits_two)
next
  case False
  show ?thesis
  proof (cases "n < 10")
    case True
    then show ?thesis by (subst digits.simps) simp
  next
    case ge: False
    with False have "n div 10 < 10" by simp
    then have "digits (n div 10) = [digit (n div 10)]" by (subst digits.simps) simp
    with ge False show ?thesis by (subst digits.simps) simp
  qed
qed


lemma nearest_hundredths_floor:
  "int (nearest_hundredths x) = \<lfloor>100 * value_of x + 1 / 2\<rfloor>"
proof (cases "0 \<le> exponent x")
  case True
  have "100 * value_of x + 1 / 2 = of_int (int (nearest_hundredths x)) + 1 / 2"
    using True by (simp add: value_of_def nearest_hundredths_def)
  also have "\<lfloor>\<dots>\<rfloor> = int (nearest_hundredths x)"
    by linarith
  finally show ?thesis by simp
next
  case False
  define d :: nat where "d = 2 ^ nat (- exponent x)"
  have d: "0 < d" by (simp add: d_def)
  have "100 * value_of x + 1 / 2 = of_nat (200 * significand x + d) / of_nat (2 * d)"
    using False d by (simp add: value_of_def d_def field_simps)
  also have "\<lfloor>\<dots>\<rfloor> = int ((200 * significand x + d) div (2 * d))"
    by (rule floor_divide_of_nat_eq)
  finally show ?thesis using False by (simp add: nearest_hundredths_def d_def)
qed

lemma toFixed2_two_decimals: "toFixed2 x = two_decimals x"
proof -
  define n where "n = nearest_hundredths x"
  have floor: "nat \<lfloor>100 * value_of x + 1 / 2\<rfloor> = n"
    using nearest_hundredths_floor [of x] by (simp add: n_def)
  consider "n < 10" | "10 \<le> n" "n < 100" | "100 \<le> n" by linarith
  then have "(let m = digits n;
          m = (if length m \<le> 2 then replicate (3 - length m) (CHR ''0'') @ m else m)
      in take (length m - 2) m @ ''.'' @ drop (length m - 2) m) =
      digits (n div 100) @ ''.'' @ [digit (n div 10 mod 10), digit (n mod 10)]"
  proof cases
    case 1
    then have "digits n = [digit n]" by (subst digits.simps) simp
    moreover from 1 have "digits (n div 100) = [digit 0]" by (subst digits.simps) simp
    ultimately show ?thesis using 1 by (simp add: digit_0 numeral_2_eq_2)
  next
    case 2
    then have "n div 10 < 10" by simp
    then have "digits (n div 10) = [digit (n div 10)]" by (subst digits.simps) simp
    with 2 have "digits n = [digit (n div 10), digit (n mod 10)]" by (subst digits.simps) simp
    moreover from 2 have "digits (n div 100) = [digit 0]" by (subst digits.simps) simp
    ultimately show ?thesis using 2 by (simp add: digit_0)
  next
    case 3
    then have "2 < length (digits n)" by (simp add: length_digits)
    with 3 show ?thesis by (simp add: digits_two Let_def)
  qed
  then show ?thesis
    unfolding toFixed2_def two_decimals_def floor n_def [symmetric] by (simp add: Let_def)
qed

text \<open>
  The model of the product is the correctly rounded one: the result is within half a unit
  of the last of its 53 bits from the exact product, and even on a tie.
\<close>

lemma bitlen_bound: "n < 2 ^ bitlen n"
proof (induction n rule: bitlen.induct)
  case (1 n)
  show ?case
  proof (cases "n = 0")
    case True
    then show ?thesis by (subst bitlen.simps) simp
  next
    case False
    with 1 have "n div 2 < 2 ^ bitlen (n div 2)" by simp
    then have "n < 2 * 2 ^ bitlen (n div 2)" by linarith
    with False show ?thesis by (subst bitlen.simps) simp
  qed
qed

lemma bitlen_lower: "n \<noteq> 0 \<Longrightarrow> 2 ^ (bitlen n - 1) \<le> n"
proof (induction n rule: bitlen.induct)
  case (1 n)
  from "1.prems" have bl: "bitlen n = Suc (bitlen (n div 2))"
    by (subst bitlen.simps) simp
  show ?case
  proof (cases "n div 2 = 0")
    case True
    then have "bitlen (n div 2) = 0" by (subst bitlen.simps) simp
    with bl "1.prems" show ?thesis by simp
  next
    case False
    then have "0 < bitlen (n div 2)"
      by (subst bitlen.simps) simp
    then have pos: "bitlen (n div 2) = Suc (bitlen (n div 2) - 1)"
      by simp
    from False "1.prems" "1.IH" have "2 ^ (bitlen (n div 2) - 1) \<le> n div 2" by simp
    then have "2 * 2 ^ (bitlen (n div 2) - 1) \<le> n" by linarith
    moreover have "(2::nat) ^ (bitlen n - 1) = 2 * 2 ^ (bitlen (n div 2) - 1)"
      using bl pos by (metis diff_Suc_1 power_Suc)
    ultimately show ?thesis by simp
  qed
qed

lemma round53_rounds:
  "\<exists>q k. round53 M e = Number q (e + int k)
     \<and> M < 2 ^ (53 + k) \<and> (k = 0 \<or> 2 ^ (52 + k) \<le> M)
     \<and> 2 * \<bar>int q * 2 ^ k - int M\<bar> \<le> 2 ^ k
     \<and> (2 * \<bar>int q * 2 ^ k - int M\<bar> = 2 ^ k \<longrightarrow> even q)"
proof (cases "bitlen M \<le> 53")
  case True
  have "M < 2 ^ bitlen M" by (rule bitlen_bound)
  also from True have "(2::nat) ^ bitlen M \<le> 2 ^ 53" by (intro power_increasing) simp_all
  finally have "M < 2 ^ (53 + 0)" by simp
  moreover from True have "round53 M e = Number M (e + int 0)" by (simp add: round53_def)
  moreover have "2 * \<bar>int M * 2 ^ 0 - int M\<bar> \<le> 2 ^ 0"
    and "2 * \<bar>int M * 2 ^ 0 - int M\<bar> = 2 ^ 0 \<longrightarrow> even M" by simp_all
  ultimately show ?thesis by blast
next
  case False
  define k where "k = bitlen M - 53"
  define q where "q = M div 2 ^ k"
  define r where "r = M mod 2 ^ k"
  define half :: nat where "half = 2 ^ (k - 1)"
  define q' where "q' = (if half < r \<or> (r = half \<and> odd q) then q + 1 else q)"
  from False have k: "0 < k" and bl: "bitlen M = k + 53" by (simp_all add: k_def)
  then have two: "2 * half = 2 ^ k"
    by (cases k) (simp_all add: half_def)
  have M: "M = q * 2 ^ k + r" unfolding q_def r_def by (rule div_mult_mod_eq [symmetric])
  have r: "r < 2 ^ k" by (simp add: r_def)
  have upper: "M < 2 ^ (53 + k)" using bitlen_bound [of M] bl by (simp add: add.commute)
  from bl have "M \<noteq> 0" by (subst (asm) bitlen.simps) (auto split: if_splits)
  then have "2 ^ (bitlen M - 1) \<le> M" by (rule bitlen_lower)
  moreover from bl have "bitlen M - 1 = 52 + k" by simp
  ultimately have lower: "2 ^ (52 + k) \<le> M" by simp
  have rd: "round53 M e = Number q' (e + int k)"
    using False by (simp add: round53_def Let_def k_def q'_def q_def r_def half_def)
  have dist: "int q' * 2 ^ k - int M = (if half < r \<or> (r = half \<and> odd q) then 2 ^ k - int r else - int r)"
    by (simp add: q'_def M algebra_simps)
  have two': "2 * int half = 2 ^ k" using two by (metis of_nat_numeral of_nat_mult of_nat_power)
  from r have r': "int r < 2 ^ k" by (metis of_nat_less_iff of_nat_numeral of_nat_power)
  have near: "2 * \<bar>int q' * 2 ^ k - int M\<bar> \<le> 2 ^ k"
    unfolding dist using two' r' by (auto split: if_splits)
  have tie: "even q'" if "2 * \<bar>int q' * 2 ^ k - int M\<bar> = 2 ^ k"
  proof -
    from that two' r' have "r = half" unfolding dist by (auto split: if_splits)
    then show ?thesis by (simp add: q'_def)
  qed
  from rd upper lower near tie show ?thesis by blast
qed

lemma value_of_times: "value_of (Number (significand x * 25) (exponent x + 2)) = 100 * value_of x"
proof -
  consider "0 \<le> exponent x" | "exponent x = - 1" | "exponent x < - 1" by linarith
  then show ?thesis
  proof cases
    case 1
    then have "nat (exponent x + 2) = nat (exponent x) + 2" by simp
    with 1 show ?thesis by (simp add: value_of_def power_add)
  next
    case 2
    then show ?thesis by (simp add: value_of_def)
  next
    case 3
    define j where "j = nat (- exponent x - 2)"
    from 3 have "nat (- exponent x) = j + 2" by (simp add: j_def)
    then have "(2::rat) ^ nat (- exponent x) = 2 ^ j * 4" by (simp add: power_add)
    with 3 show ?thesis by (simp add: value_of_def j_def)
  qed
qed

lemma times100_rounded: "rounded_product x (times100 x)"
proof -
  from round53_rounds [of "significand x * 25" "exponent x + 2"]
  obtain q k where "round53 (significand x * 25) (exponent x + 2) = Number q (exponent x + 2 + int k)"
    and "significand x * 25 < 2 ^ (53 + k)"
    and "k = 0 \<or> 2 ^ (52 + k) \<le> significand x * 25"
    and "2 * \<bar>int q * 2 ^ k - int (significand x * 25)\<bar> \<le> 2 ^ k"
    and "2 * \<bar>int q * 2 ^ k - int (significand x * 25)\<bar> = 2 ^ k \<longrightarrow> even q"
    by blast
  then show ?thesis
    unfolding rounded_product_def times100_def
    by (intro exI [of _ k]) (simp add: mult.commute)
qed

lemma value_of_powi: "value_of x = of_nat (significand x) * 2 powi exponent x"
  by (simp add: value_of_def power_int_def field_simps)

lemma rounded_product_bound:
  assumes "rounded_product x y"
  shows "value_of y \<le> 200 * value_of x"
proof -
  define M where "M = 25 * significand x"
  from assms obtain k where fits: "k = 0 \<or> 2 ^ (52 + k) \<le> M"
    and ex: "exponent y = exponent x + 2 + int k"
    and near: "2 * \<bar>int (significand y) * 2 ^ k - int M\<bar> \<le> 2 ^ k"
    unfolding rounded_product_def M_def by blast
  have "int (significand y) * 2 ^ k \<le> 2 * int M"
  proof (cases "k = 0")
    case True
    with near have "2 * \<bar>int (significand y) - int M\<bar> \<le> 1" by simp
    then have "int (significand y) = int M" by arith
    with True show ?thesis by simp
  next
    case False
    with fits have "(2::nat) ^ (52 + k) \<le> M" by simp
    moreover have "(2::nat) ^ k \<le> 2 ^ (52 + k)" by (intro power_increasing) simp_all
    ultimately have "(2::nat) ^ k \<le> M" by linarith
    then have pk: "(2::int) ^ k \<le> int M" by (metis of_nat_le_iff of_nat_numeral of_nat_power)
    define a where "a = int (significand y) * 2 ^ k"
    define b :: int where "b = 2 ^ k"
    from near pk have "2 * \<bar>a - int M\<bar> \<le> b" and "b \<le> int M"
      by (simp_all add: a_def b_def)
    then have "a \<le> 2 * int M" by arith
    then show ?thesis by (simp add: a_def)
  qed
  then have "significand y * 2 ^ k \<le> 2 * M"
    by (metis (mono_tags) of_nat_le_iff of_nat_mult of_nat_numeral of_nat_power)
  then have le: "(of_nat (significand y) :: rat) * 2 ^ k \<le> 2 * of_nat M"
    by (metis (mono_tags) of_nat_le_iff of_nat_mult of_nat_numeral of_nat_power)
  have "value_of y = of_nat (significand y) * 2 ^ k * (2 powi (exponent x) * 4)"
    unfolding value_of_powi ex by (simp add: power_int_add)
  also have "\<dots> \<le> 2 * of_nat M * (2 powi (exponent x) * 4)"
    using le by (intro mult_right_mono) simp_all
  also have "\<dots> = 200 * value_of x"
    by (simp add: value_of_powi M_def)
  finally show ?thesis .
qed

text \<open>The doubles nearest to 0.8532 and to 0.10.\<close>

lemma example_doubles:
  "\<bar>value_of (Number 3842471202072507 (- 52)) - 8532 / 10000\<bar> \<le> 1 / 2 ^ 54"
  "\<bar>value_of (Number 3602879701896397 (- 55)) - 10 / 100\<bar> \<le> 1 / 2 ^ 57"
  by (simp_all add: value_of_def)

section \<open>Device selection\<close>

lemma starts_with_iff: "starts_with k cs \<longleftrightarrow> (\<exists>v. cs = k @ v)"
  by (induction k cs rule: starts_with.induct) auto

lemma occurs_in_iff: "occurs_in k cs \<longleftrightarrow> (\<exists>u v. cs = u @ k @ v)"
proof (induction cs)
  case Nil
  then show ?case by auto
next
  case (Cons c cs)
  show ?case
  proof
    assume "occurs_in k (c # cs)"
    then consider "starts_with k (c # cs)" | "occurs_in k cs" by auto
    then show "\<exists>u v. c # cs = u @ k @ v"
    proof cases
      case 1
      then obtain v where "c # cs = k @ v" by (auto simp: starts_with_iff)
      then have "c # cs = [] @ k @ v" by simp
      then show ?thesis by blast
    next
      case 2
      then obtain u v where "cs = u @ k @ v" using Cons.IH by blast
      then have "c # cs = (c # u) @ k @ v" by simp
      then show ?thesis by blast
    qed
  next
    assume "\<exists>u v. c # cs = u @ k @ v"
    then obtain u v where uv: "c # cs = u @ k @ v" by blast
    show "occurs_in k (c # cs)"
    proof (cases u)
      case Nil
      with uv have "starts_with k (c # cs)" by (auto simp: starts_with_iff)
      then show ?thesis by simp
    next
      case (Cons a u')
      with uv have "cs = u' @ k @ v" by simp
      then have "occurs_in k cs" using Cons.IH by blast
      then show ?thesis by simp
    qed
  qed
qed

lemma backRegex_test_iff: "backRegex_test l \<longleftrightarrow> matches_keyword l"
  by (simp add: backRegex_test_def matches_keyword_def list_ex_iff occurs_in_iff)

lemma find_first:
  "find P xs = Some d \<Longrightarrow> \<exists>pre post. xs = pre @ d # post \<and> P d \<and> (\<forall>x \<in> set pre. \<not> P x)"
proof (induction xs)
  case Nil
  then show ?case by simp
next
  case (Cons a xs)
  show ?case
  proof (cases "P a")
    case True
    with Cons.prems have "a = d" by simp
    with True have "a # xs = [] @ d # xs \<and> P d \<and> (\<forall>x \<in> set []. \<not> P x)" by simp
    then show ?thesis by blast
  next
    case False
    with Cons obtain pre post where "xs = pre @ d # post \<and> P d \<and> (\<forall>x \<in> set pre. \<not> P x)" by auto
    with False have "a # xs = (a # pre) @ d # post \<and> P d \<and> (\<forall>x \<in> set (a # pre). \<not> P x)" by simp
    then show ?thesis by blast
  qed
qed


section \<open>Streams: the live ones are current\<close>

lemmas loop_defs = updatePredictions_def setInterval_def runOnce_def runOnce_resume_def
  loadModel_def loadModel_resume_def startPredictions_loaded_def startPredictions_def
  startPredictions_resume_def stopPredictions_def

lemma loop_streams [simp]:
  "streams (updatePredictions preds s) = streams s"
  "streams (setInterval s) = streams s"
  "streams (runOnce first s) = streams s"
  "streams (runOnce_resume first r s) = streams s"
  "streams (startPredictions s) = streams s"
  "streams (startPredictions_resume k lr s) = streams s"
  "streams (stopPredictions s) = streams s"
  by (simp_all add: loop_defs Let_def split: option.splits sum.splits)

lemma loop_currentStream [simp]:
  "currentStream (updatePredictions preds s) = currentStream s"
  "currentStream (setInterval s) = currentStream s"
  "currentStream (runOnce first s) = currentStream s"
  "currentStream (runOnce_resume first r s) = currentStream s"
  "currentStream (startPredictions s) = currentStream s"
  "currentStream (startPredictions_resume k lr s) = currentStream s"
  "currentStream (stopPredictions s) = currentStream s"
  by (simp_all add: loop_defs Let_def split: option.splits sum.splits)

lemma stopCamera_streams:
  "streams (stopCamera s) =
     (case currentStream s of None \<Rightarrow> streams s
      | Some c \<Rightarrow> (streams s)[c := map (\<lambda>track. Ended) (streams s ! c)])"
  by (simp add: stopCamera_def Let_def split: option.splits)

lemma stopCamera_currentStream [simp]: "currentStream (stopCamera s) = None"
  by (simp add: stopCamera_def Let_def split: option.splits)

lemma Live_not_in_map_Ended: "Live \<notin> set (map (\<lambda>track. Ended) ts)"
  by auto

lemma stopCamera_all_ended:
  assumes "streams_ok s" and "sid < length (streams (stopCamera s))"
  shows "Live \<notin> set (streams (stopCamera s) ! sid)"
proof (cases "currentStream s")
  case None
  with assms show ?thesis by (auto simp: stopCamera_streams streams_ok_def)
next
  case (Some c)
  with assms show ?thesis
    by (cases "sid = c") (auto simp: stopCamera_streams streams_ok_def)
qed

lemma streams_ok_stopCamera: "streams_ok s \<Longrightarrow> streams_ok (stopCamera s)"
  using stopCamera_all_ended by (simp add: streams_ok_def)

lemma attachStream_currentStream [simp]: "currentStream (attachStream stream s) = Some stream"
  by (simp add: attachStream_def Let_def)

lemma attachStream_streams:
  "streams (attachStream stream s) = streams (if currentStream s \<noteq> None then stopCamera s else s)"
  by (simp add: attachStream_def Let_def)

lemma streams_ok_attachStream: "streams_ok s \<Longrightarrow> streams_ok (attachStream stream s)"
  using stopCamera_all_ended [of s]
  by (auto simp: streams_ok_def attachStream_streams)

lemma attach_new_stream:
  assumes "streams_ok s"
  shows "case new_stream n s of (stream, s1) \<Rightarrow>
           stream = length (streams s) \<and>
           currentStream (attachStream stream s1) = Some stream \<and>
           (\<forall>sid < length (streams (attachStream stream s1)).
              Live \<in> set (streams (attachStream stream s1) ! sid) \<longrightarrow> sid = stream)"
proof -
  define s1 where "s1 = s\<lparr>streams := streams s @ [replicate n Live]\<rparr>"
  have ns: "new_stream n s = (length (streams s), s1)"
    by (simp add: new_stream_def s1_def)
  have "sid = length (streams s)"
    if "sid < length (streams (attachStream (length (streams s)) s1))"
      and "Live \<in> set (streams (attachStream (length (streams s)) s1) ! sid)" for sid
  proof (rule ccontr)
    assume ne: "sid \<noteq> length (streams s)"
    have "length (streams (attachStream (length (streams s)) s1)) = Suc (length (streams s))"
      by (simp add: attachStream_streams stopCamera_streams s1_def split: option.splits)
    with that(1) ne have lt: "sid < length (streams s)" by simp
    show False
    proof (cases "currentStream s")
      case None
      with that(2) lt assms show False
        by (auto simp: attachStream_streams s1_def streams_ok_def nth_append)
    next
      case (Some c)
      show False
      proof (cases "sid = c")
        case True
        with that(2) lt Some show False
          by (auto simp: attachStream_streams stopCamera_streams s1_def)
      next
        case False
        with that(2) lt Some have "Live \<in> set (streams s ! sid)"
          by (simp add: attachStream_streams stopCamera_streams s1_def nth_append)
        with lt assms Some False show False
          by (auto simp: streams_ok_def)
      qed
    qed
  qed
  with ns show ?thesis by simp
qed

lemma streams_ok_attach_new:
  "streams_ok s \<Longrightarrow> streams_ok (case new_stream n s of (stream, s1) \<Rightarrow> attachStream stream s1)"
  using attach_new_stream [of s n] by (auto simp: streams_ok_def split: prod.splits)

lemma camera_streams [simp]:
  "streams (camera_failed err s) = streams s"
  "currentStream (camera_failed err s) = currentStream s"
  "streams (startCamera s) = streams s"
  "currentStream (startCamera s) = currentStream s"
  "streams (startCamera_enumerated dr s) = streams s"
  "currentStream (startCamera_enumerated dr s) = currentStream s"
  by (simp_all add: camera_failed_def startCamera_def startCamera_enumerated_def
        split: sum.splits option.splits)

lemma streams_ok_cong:
  "streams t = streams s \<Longrightarrow> currentStream t = currentStream s \<Longrightarrow> streams_ok s \<Longrightarrow> streams_ok t"
  by (simp add: streams_ok_def)

lemma streams_ok_settle:
  assumes "streams_ok s" and "settle a out s = Some s'"
  shows "streams_ok s'"
proof (cases a)
  case AwaitFacingMode
  with assms show ?thesis
    by (cases out) (auto simp: settle_def startCamera_facingMode_def streams_ok_attach_new
        intro: streams_ok_cong [of _ s])
next
  case AwaitEnumerate
  with assms show ?thesis
    by (cases out) (auto simp: settle_def intro: streams_ok_cong [of _ s])
next
  case (AwaitDeviceId d)
  with assms show ?thesis
    by (cases out) (auto simp: settle_def startCamera_deviceId_def streams_ok_attach_new
        intro: streams_ok_cong [of _ s])
next
  case AwaitPlay
  with assms show ?thesis
    by (cases out) (auto simp: settle_def intro: streams_ok_cong [of _ s])
next
  case (AwaitLoad k)
  with assms show ?thesis
    by (cases out) (auto simp: settle_def intro: streams_ok_cong [of _ s])
next
  case (AwaitClassify first)
  with assms show ?thesis
    by (cases out) (auto simp: settle_def intro: streams_ok_cong [of _ s])
qed

lemma streams_ok_step: "streams_ok s \<Longrightarrow> streams_ok (step ev s)"
proof (cases ev)
  case (Settle i out)
  assume ok: "streams_ok s"
  then have "streams_ok (s\<lparr>pending := remove_nth i (pending s)\<rparr>)"
    by (simp add: streams_ok_def)
  with ok Settle show ?thesis
    by (auto split: option.splits dest: streams_ok_settle)
qed (auto simp: streams_ok_stopCamera intro: streams_ok_cong [of _ s] split: option.splits)

lemma streams_ok_run: "streams_ok s \<Longrightarrow> streams_ok (run evs s)"
  unfolding run_def by (induction evs arbitrary: s) (simp_all add: streams_ok_step)

lemma boot_streams_ok: "boot s \<Longrightarrow> streams_ok s"
  by (simp add: boot_def streams_ok_def)

section \<open>The cached model\<close>

lemma set_remove_nth: "set (remove_nth i xs) \<subseteq> set xs"
  unfolding remove_nth_def using set_take_subset [of i xs] set_drop_subset [of "Suc i" xs] by auto

lemma not_in_remove_nth: "x \<notin> set xs \<Longrightarrow> x \<notin> set (remove_nth i xs)"
  using set_remove_nth [of i xs] by auto

lemma cached_loadModel: "cached m n s \<Longrightarrow> loadModel s = (Returned m, s)"
  by (simp add: cached_def loadModel_def)

lemma cached_loop:
  assumes "cached m n s"
  shows "cached m n (updatePredictions preds s)"
    and "cached m n (setInterval s)"
    and "cached m n (runOnce first s)"
    and "cached m n (runOnce_resume first r s)"
    and "cached m n (startPredictions s)"
    and "cached m n (stopPredictions s)"
  using assms
  by (auto simp: cached_def loop_defs Let_def split: option.splits sum.splits)

lemma cached_stopCamera: "cached m n s \<Longrightarrow> cached m n (stopCamera s)"
proof (cases "currentStream s")
  case None
  assume "cached m n s"
  with None show ?thesis by (simp add: stopCamera_def)
next
  case (Some c)
  assume c: "cached m n s"
  then have "cached m n (if srcObject_throws s
      then s\<lparr>streams := (streams s)[c := map (\<lambda>track. Ended) (streams s ! c)], currentStream := None, paused := True, src := None\<rparr>
      else s\<lparr>streams := (streams s)[c := map (\<lambda>track. Ended) (streams s ! c)], currentStream := None, paused := True, srcObject := None\<rparr>)"
    by (simp add: cached_def)
  then show ?thesis using Some
    by (simp add: stopCamera_def Let_def cached_loop(6))
qed



lemma cached_attach_rest:
  assumes "cached m n t"
  shows "cached m n (t\<lparr>currentStream := Some stream, console := console t @ [Error_srcObject]\<rparr>)"
    and "cached m n (startPredictions (t\<lparr>currentStream := Some stream, srcObject := Some stream,
            muted := True, pending := pending t @ [AwaitPlay]\<rparr>))"
proof -
  from assms show "cached m n (t\<lparr>currentStream := Some stream, console := console t @ [Error_srcObject]\<rparr>)"
    by (simp add: cached_def)
  from assms have "cached m n (t\<lparr>currentStream := Some stream, srcObject := Some stream,
        muted := True, pending := pending t @ [AwaitPlay]\<rparr>)"
    by (simp add: cached_def)
  then show "cached m n (startPredictions (t\<lparr>currentStream := Some stream, srcObject := Some stream,
            muted := True, pending := pending t @ [AwaitPlay]\<rparr>))"
    by (rule cached_loop(5))
qed

lemma cached_attachStream: "cached m n s \<Longrightarrow> cached m n (attachStream stream s)"
  by (simp add: attachStream_def Let_def cached_attach_rest cached_stopCamera)

lemma cached_camera:
  assumes "cached m n s"
  shows "cached m n (camera_failed err s)"
    and "cached m n (startCamera s)"
    and "cached m n (startCamera_enumerated dr s)"
    and "cached m n (startCamera_facingMode sr s)"
    and "cached m n (startCamera_deviceId sr s)"
proof -
  from assms show "cached m n (camera_failed err s)" for err
    by (simp add: cached_def camera_failed_def)
  then show "cached m n (startCamera_enumerated dr s)"
    using assms
    by (auto simp: startCamera_enumerated_def cached_def split: sum.splits option.splits)
  from assms show "cached m n (startCamera s)"
    by (simp add: cached_def startCamera_def)
  have new: "cached m n (case new_stream k s of (stream, s1) \<Rightarrow> attachStream stream s1)" for k
  proof -
    from assms have "cached m n (s\<lparr>streams := streams s @ [replicate k Live]\<rparr>)"
      by (simp add: cached_def)
    then show ?thesis by (simp add: new_stream_def cached_attachStream)
  qed
  from assms new show "cached m n (startCamera_facingMode sr s)"
    by (cases sr) (simp_all add: startCamera_facingMode_def cached_def)
  from assms new \<open>\<And>err. cached m n (camera_failed err s)\<close> show "cached m n (startCamera_deviceId sr s)"
    by (cases sr) (simp_all add: startCamera_deviceId_def)
qed

lemma cached_settle:
  assumes "cached m n s" and "settle a out s = Some s'" and "\<forall>k. a \<noteq> AwaitLoad k"
  shows "cached m n s'"
proof (cases a)
  case AwaitPlay
  with assms show ?thesis by (cases out) (auto simp: settle_def cached_def)
next
  case (AwaitLoad k)
  with assms show ?thesis by simp
qed (use assms in \<open>cases out; auto simp: settle_def cached_camera cached_loop\<close>)+

lemma cached_step: "cached m n s \<Longrightarrow> cached m n (step ev s)"
proof (cases ev)
  case (Settle i out)
  assume c: "cached m n s"
  show ?thesis
  proof (cases "i < length (pending s)")
    case True
    with c have a: "\<forall>k. pending s ! i \<noteq> AwaitLoad k"
      by (metis cached_def nth_mem)
    from c have "cached m n (s\<lparr>pending := remove_nth i (pending s)\<rparr>)"
      by (simp add: cached_def not_in_remove_nth)
    with a c Settle True show ?thesis
      by (auto split: option.splits dest: cached_settle)
  next
    case False
    with c Settle show ?thesis by simp
  qed
next
  case DOMContentLoaded
  assume c: "cached m n s"
  then have "cached m n (case h3 s of Some old \<Rightarrow> s\<lparr>h3 := Some initializing\<rparr> | None \<Rightarrow> s)"
    by (simp add: cached_def split: option.splits)
  with DOMContentLoaded show ?thesis by (simp add: cached_camera(2))
qed (simp_all add: cached_stopCamera cached_loop cached_camera)

lemma cached_run: "cached m n s \<Longrightarrow> cached m n (run evs s)"
  unfolding run_def by (induction evs arbitrary: s) (simp_all add: cached_step)


section \<open>No loop without a model\<close>

lemma sound_loop:
  assumes "sound s"
  shows "sound (updatePredictions preds s)"
    and "sound (startPredictions s)"
    and "sound (startPredictions_resume k lr s)"
    and "sound (stopPredictions s)"
    and "model s \<noteq> None \<or> \<not> first \<Longrightarrow> sound (runOnce first s)"
    and "model s \<noteq> None \<Longrightarrow> sound (runOnce_resume first r s)"
  using assms
  by (auto simp: sound_def loop_defs Let_def split: option.splits sum.splits)

lemma sound_stopCamera: "sound s \<Longrightarrow> sound (stopCamera s)"
proof (cases "currentStream s")
  case None
  assume "sound s"
  with None show ?thesis by (simp add: stopCamera_def)
next
  case (Some c)
  assume c: "sound s"
  then have "sound (if srcObject_throws s
      then s\<lparr>streams := (streams s)[c := map (\<lambda>track. Ended) (streams s ! c)], currentStream := None, paused := True, src := None\<rparr>
      else s\<lparr>streams := (streams s)[c := map (\<lambda>track. Ended) (streams s ! c)], currentStream := None, paused := True, srcObject := None\<rparr>)"
    by (simp add: sound_def)
  then show ?thesis using Some
    by (simp add: stopCamera_def Let_def sound_loop(4))
qed

lemma sound_attach_rest:
  assumes "sound t"
  shows "sound (t\<lparr>currentStream := Some stream, console := console t @ [Error_srcObject]\<rparr>)"
    and "sound (startPredictions (t\<lparr>currentStream := Some stream, srcObject := Some stream,
            muted := True, pending := pending t @ [AwaitPlay]\<rparr>))"
proof -
  from assms show "sound (t\<lparr>currentStream := Some stream, console := console t @ [Error_srcObject]\<rparr>)"
    by (simp add: sound_def)
  from assms have "sound (t\<lparr>currentStream := Some stream, srcObject := Some stream,
        muted := True, pending := pending t @ [AwaitPlay]\<rparr>)"
    by (simp add: sound_def)
  then show "sound (startPredictions (t\<lparr>currentStream := Some stream, srcObject := Some stream,
            muted := True, pending := pending t @ [AwaitPlay]\<rparr>))"
    by (rule sound_loop(2))
qed

lemma sound_attachStream: "sound s \<Longrightarrow> sound (attachStream stream s)"
  by (simp add: attachStream_def Let_def sound_attach_rest sound_stopCamera)

lemma sound_camera:
  assumes "sound s"
  shows "sound (camera_failed err s)"
    and "sound (startCamera s)"
    and "sound (startCamera_enumerated dr s)"
    and "sound (startCamera_facingMode sr s)"
    and "sound (startCamera_deviceId sr s)"
proof -
  from assms show failed: "sound (camera_failed err s)" for err
    by (simp add: sound_def camera_failed_def)
  then show "sound (startCamera_enumerated dr s)"
    using assms
    by (auto simp: startCamera_enumerated_def sound_def split: sum.splits option.splits)
  from assms show "sound (startCamera s)"
    by (simp add: sound_def startCamera_def)
  have new: "sound (case new_stream k s of (stream, s1) \<Rightarrow> attachStream stream s1)" for k
  proof -
    from assms have "sound (s\<lparr>streams := streams s @ [replicate k Live]\<rparr>)"
      by (simp add: sound_def)
    then show ?thesis by (simp add: new_stream_def sound_attachStream)
  qed
  from assms new show "sound (startCamera_facingMode sr s)"
    by (cases sr) (simp_all add: startCamera_facingMode_def sound_def)
  from new failed show "sound (startCamera_deviceId sr s)"
    by (cases sr) (simp_all add: startCamera_deviceId_def)
qed

lemma sound_settle:
  assumes "sound s" and "settle a out s = Some s'" and "\<forall>first. a = AwaitClassify first \<longrightarrow> model s \<noteq> None"
  shows "sound s'"
proof (cases a)
  case AwaitPlay
  with assms show ?thesis by (cases out) (auto simp: settle_def sound_def)
qed (use assms in \<open>cases out; auto simp: settle_def sound_camera sound_loop\<close>)+

lemma sound_remove:
  assumes "sound s"
  shows "sound (s\<lparr>pending := remove_nth i (pending s)\<rparr>)"
  using assms not_in_remove_nth [of _ "pending s" i] by (auto simp: sound_def)

lemma sound_step: "sound s \<Longrightarrow> sound (step ev s)"
proof (cases ev)
  case (Settle i out)
  assume c: "sound s"
  show ?thesis
  proof (cases "i < length (pending s)")
    case True
    with c have a: "\<forall>first. pending s ! i = AwaitClassify first \<longrightarrow> model s \<noteq> None"
      by (metis sound_def nth_mem)
    from c have "sound (s\<lparr>pending := remove_nth i (pending s)\<rparr>)"
      by (rule sound_remove)
    with a c Settle True show ?thesis
      by (auto split: option.splits dest: sound_settle)
  next
    case False
    with c Settle show ?thesis by simp
  qed
next
  case DOMContentLoaded
  assume c: "sound s"
  then have "sound (case h3 s of Some old \<Rightarrow> s\<lparr>h3 := Some initializing\<rparr> | None \<Rightarrow> s)"
    by (auto simp: sound_def split: option.splits)
  with DOMContentLoaded show ?thesis by (simp add: sound_camera(2))
next
  case (Tick h)
  assume c: "sound s"
  show ?thesis
  proof (cases "h \<in> set (timers s)")
    case True
    with c have "model s \<noteq> None" by (auto simp: sound_def)
    with c Tick True show ?thesis by (simp add: sound_loop(5))
  next
    case False
    with c Tick show ?thesis by simp
  qed
qed (simp_all add: sound_stopCamera sound_camera)

lemma sound_run: "sound s \<Longrightarrow> sound (run evs s)"
  unfolding run_def by (induction evs arbitrary: s) (simp_all add: sound_step)

lemma boot_sound: "boot s \<Longrightarrow> sound s"
  by (simp add: boot_def sound_def)

section \<open>The claims\<close>

lemmas run_defs = run_def page_def boot_def remove_nth_def settle_def
  startCamera_def startCamera_facingMode_def startCamera_enumerated_def startCamera_deviceId_def
  camera_failed_def new_stream_def attachStream_def stopCamera_def
  startPredictions_def startPredictions_loaded_def startPredictions_resume_def stopPredictions_def
  loadModel_def loadModel_resume_def runOnce_def runOnce_resume_def setInterval_def
  updatePredictions_def render_def appendChild_def

text \<open>
  Claim C1. Whatever the page, the console and the platform do, a stream with a live
  track is the stream stored in \<^verbatim>\<open>currentStream\<close>, so at most one stream is active.
  When the platform hands out a new stream and \<^verbatim>\<open>attachStream\<close> takes it, the new stream
  becomes the current one and no other stream keeps a live track: the old one is fully
  stopped. \<^verbatim>\<open>stopCamera\<close> leaves no stream current and no track live.
\<close>

theorem one_active_stream:
  assumes "boot s0"
  shows "(\<forall>sid < length (streams (run evs s0)).
            Live \<in> set (streams (run evs s0) ! sid) \<longrightarrow> currentStream (run evs s0) = Some sid)
       \<and> (case new_stream n (run evs s0) of (stream, s1) \<Rightarrow>
            currentStream (attachStream stream s1) = Some stream \<and>
            (\<forall>sid < length (streams (attachStream stream s1)).
               Live \<in> set (streams (attachStream stream s1) ! sid) \<longrightarrow> sid = stream))
       \<and> currentStream (stopCamera (run evs s0)) = None
       \<and> (\<forall>sid < length (streams (stopCamera (run evs s0))).
            Live \<notin> set (streams (stopCamera (run evs s0)) ! sid))"
proof -
  from assms have ok: "streams_ok (run evs s0)"
    by (simp add: boot_streams_ok streams_ok_run)
  then have "\<forall>sid < length (streams (run evs s0)).
      Live \<in> set (streams (run evs s0) ! sid) \<longrightarrow> currentStream (run evs s0) = Some sid"
    by (simp add: streams_ok_def)
  moreover from attach_new_stream [OF ok, of n]
  have "case new_stream n (run evs s0) of (stream, s1) \<Rightarrow>
            currentStream (attachStream stream s1) = Some stream \<and>
            (\<forall>sid < length (streams (attachStream stream s1)).
               Live \<in> set (streams (attachStream stream s1) ! sid) \<longrightarrow> sid = stream)"
    by (simp split: prod.splits)
  moreover from ok have "\<forall>sid < length (streams (stopCamera (run evs s0))).
      Live \<notin> set (streams (stopCamera (run evs s0)) ! sid)"
    using stopCamera_all_ended by blast
  ultimately show ?thesis by simp
qed

text \<open>
  The page starts the camera, the platform delivers a stream of one track, and a second
  stream of one track is attached: the first stream's track has ended, the second is current.
\<close>

theorem one_active_stream_witness:
  "boot page \<and>
   currentStream (run [DOMContentLoaded, Settle 0 (Stream 1)] page) = Some 0 \<and>
   streams (run [DOMContentLoaded, Settle 0 (Stream 1)] page) = [[Live]] \<and>
   (case new_stream 1 (run [DOMContentLoaded, Settle 0 (Stream 1)] page) of (stream, s1) \<Rightarrow>
      currentStream (attachStream stream s1) = Some 1 \<and>
      streams (attachStream stream s1) = [[Ended], [Live]])"
  using one_active_stream [where ?s0.0 = page and n = 1 and evs = "[DOMContentLoaded, Settle 0 (Stream 1)]"]
  by (simp add: run_defs)

text \<open>
  Claim C2 fails on the script. \<^verbatim>\<open>startPredictions\<close> tests \<^verbatim>\<open>currentStream\<close> before it awaits
  the model and the first classification, and not again afterwards: when the page is
  hidden while the model loads, the camera is stopped, and the loop is started all the
  same once the model and the first classification arrive. The handle is then set with
  no stream, and the timer runs.
\<close>

theorem loop_started_without_stream:
  "currentStream (run [DOMContentLoaded, Settle 0 (Stream 1), VisibilityChange True,
       Settle 1 Loaded, Settle 1 (Rejected (PlatformError ''no frame''))] page) = None
   \<and> predictInterval (run [DOMContentLoaded, Settle 0 (Stream 1), VisibilityChange True,
       Settle 1 Loaded, Settle 1 (Rejected (PlatformError ''no frame''))] page) = Some 1
   \<and> timers (run [DOMContentLoaded, Settle 0 (Stream 1), VisibilityChange True,
       Settle 1 Loaded, Settle 1 (Rejected (PlatformError ''no frame''))] page) = [1]"
  by (simp add: run_defs)

text \<open>
  Claim C3 fails on the script. The test of \<^verbatim>\<open>predictInterval\<close> and the assignment to it
  are separated by \<^verbatim>\<open>await runOnce()\<close>. Two calls of the exported \<^verbatim>\<open>startCamera\<close> whose
  streams arrive while the model loads both pass the test; each sets an interval. Two
  timers run, the variable holds the second, and \<^verbatim>\<open>stopCamera\<close> clears only that one.
\<close>

theorem two_intervals_running:
  "timers (run [DOMContentLoaded, CallStartCamera, Settle 0 (Stream 1), Settle 0 (Stream 1),
       Settle 1 Loaded, Settle 2 Loaded,
       Settle 2 (Classified (Some [])), Settle 2 (Classified (Some []))] page) = [1, 2]
   \<and> predictInterval (run [DOMContentLoaded, CallStartCamera, Settle 0 (Stream 1), Settle 0 (Stream 1),
       Settle 1 Loaded, Settle 2 Loaded,
       Settle 2 (Classified (Some [])), Settle 2 (Classified (Some []))] page) = Some 2
   \<and> timers (run [DOMContentLoaded, CallStartCamera, Settle 0 (Stream 1), Settle 0 (Stream 1),
       Settle 1 Loaded, Settle 2 Loaded,
       Settle 2 (Classified (Some [])), Settle 2 (Classified (Some [])), CallStopCamera] page) = [1]
   \<and> predictInterval (run [DOMContentLoaded, CallStartCamera, Settle 0 (Stream 1), Settle 0 (Stream 1),
       Settle 1 Loaded, Settle 2 Loaded,
       Settle 2 (Classified (Some [])), Settle 2 (Classified (Some [])), CallStopCamera] page) = None"
  by (simp add: run_defs)

text \<open>
  What does hold of the loop: a call of \<^verbatim>\<open>startPredictions\<close> while the handle is set
  changes nothing, a handle is never set without a model, and \<^verbatim>\<open>stopCamera\<close> on an active
  stream clears the handle it finds.
\<close>

lemma startPredictions_running:
  assumes "boot s0" and "predictInterval (run evs s0) \<noteq> None"
  shows "startPredictions (run evs s0) = run evs s0"
proof -
  from assms(1) have "sound (run evs s0)" by (simp add: boot_sound sound_run)
  with assms(2) obtain m where "model (run evs s0) = Some m" by (auto simp: sound_def)
  with assms(2) show ?thesis
    by (simp add: startPredictions_def loadModel_def startPredictions_loaded_def)
qed

lemma loop_needs_model:
  assumes "boot s0" and "predictInterval (run evs s0) \<noteq> None"
  shows "model (run evs s0) \<noteq> None"
  using assms boot_sound [of s0] sound_run [of s0 evs] by (auto simp: sound_def)

lemma stopCamera_clears_handle:
  "currentStream s \<noteq> None \<Longrightarrow> predictInterval (stopCamera s) = None"
  by (auto simp: stopCamera_def stopPredictions_def updatePredictions_def Let_def split: option.splits)

text \<open>
  Claim C4. Let the probabilities be doubles between 0 and 1. \<^verbatim>\<open>updatePredictions\<close>
  replaces the children of the list: by the one placeholder, which holds no digit and no
  percent sign, when the argument is \<^verbatim>\<open>null\<close> or empty; otherwise by one entry for each
  prediction, in the order of the argument, made of the label, a space, the dash U+2014
  (three bytes in UTF-8), a space, the product of the probability and 100 rounded to the
  nearest hundredth and written with two decimals, and the percent sign. The product is
  the product of doubles, and it is below \<open>10 ^ 21\<close>.
\<close>

theorem updatePredictions_entries:
  assumes "\<forall>ps. preds = Some ps \<longrightarrow> (\<forall>p \<in> set ps. is_probability (probability p))"
  shows "predictionsList (updatePredictions preds s) =
     (if preds = None \<or> preds = Some [] then [''No hay predicciones'']
      else map (\<lambda>p. className p @ [CHR '' '', CHR 0xE2, CHR 0x80, CHR 0x94, CHR '' '']
                  @ two_decimals (times100 (probability p)) @ ''%'') (the preds))
   \<and> (\<forall>ps. preds = Some ps \<longrightarrow>
         (\<forall>p \<in> set ps. rounded_product (probability p) (times100 (probability p))
            \<and> value_of (times100 (probability p)) < 10 ^ 21))
   \<and> set ''No hay predicciones'' \<inter> set ''0123456789%'' = {}"
proof -
  have "textContent = (\<lambda>p. className p @ [CHR '' '', CHR 0xE2, CHR 0x80, CHR 0x94, CHR '' '']
                  @ two_decimals (times100 (probability p)) @ ''%'')"
    by (rule ext) (simp add: textContent_def toFixed2_two_decimals dash_def)
  then have entries: "predictionsList (updatePredictions preds s) =
     (if preds = None \<or> preds = Some [] then [''No hay predicciones'']
      else map (\<lambda>p. className p @ [CHR '' '', CHR 0xE2, CHR 0x80, CHR 0x94, CHR '' '']
                  @ two_decimals (times100 (probability p)) @ ''%'') (the preds))"
    by (auto simp: updatePredictions_def render_eq split: option.splits)
  have product: "rounded_product (probability p) (times100 (probability p))
      \<and> value_of (times100 (probability p)) < 10 ^ 21"
    if "preds = Some ps" and "p \<in> set ps" for ps p
  proof -
    from that assms have "value_of (probability p) \<le> 1" by (simp add: is_probability_def)
    moreover have r: "rounded_product (probability p) (times100 (probability p))"
      by (rule times100_rounded)
    then have "value_of (times100 (probability p)) \<le> 200 * value_of (probability p)"
      by (rule rounded_product_bound)
    ultimately have "value_of (times100 (probability p)) \<le> 200" by linarith
    also have "(200::rat) < 10 ^ 21" by simp
    finally show ?thesis using r by simp
  qed
  have "set ''No hay predicciones'' \<inter> set ''0123456789%'' = {}" by auto
  with entries product show ?thesis by blast
qed

text \<open>
  The example of the specification: 0.8532 is the double \<open>3842471202072507 / 2 ^ 52\<close> and
  0.10 is the double \<open>3602879701896397 / 2 ^ 55\<close>. The list shown before is replaced.
\<close>

theorem updatePredictions_entries_witness:
  "is_probability (Number 3842471202072507 (- 52))
   \<and> is_probability (Number 3602879701896397 (- 55))
   \<and> predictionsList
     (updatePredictions
        (Some [\<lparr>className = ''cat'', probability = Number 3842471202072507 (- 52)\<rparr>,
               \<lparr>className = ''dog'', probability = Number 3602879701896397 (- 55)\<rparr>])
        (page\<lparr>predictionsList := [''No hay predicciones'']\<rparr>))
     = [''cat'' @ [CHR '' '', CHR 0xE2, CHR 0x80, CHR 0x94, CHR '' ''] @ ''85.32%'',
        ''dog'' @ [CHR '' '', CHR 0xE2, CHR 0x80, CHR 0x94, CHR '' ''] @ ''10.00%'']
   \<and> predictionsList (updatePredictions None (page\<lparr>predictionsList := [''a'', ''b'']\<rparr>))
     = [''No hay predicciones'']
   \<and> predictionsList (updatePredictions (Some []) (page\<lparr>predictionsList := [''a'', ''b'']\<rparr>))
     = [''No hay predicciones'']"
proof -
  have prob: "is_probability (Number 3842471202072507 (- 52))"
    "is_probability (Number 3602879701896397 (- 55))"
    by (simp_all add: is_probability_def value_of_def)
  have cat: "toFixed2 (times100 (Number 3842471202072507 (- 52))) = ''85.32''"
    by (simp add: times100_def round53_def bitlen.simps toFixed2_def nearest_hundredths_def
          digits.simps digit_def Let_def)
  have dog: "toFixed2 (times100 (Number 3602879701896397 (- 55))) = ''10.00''"
    by (simp add: times100_def round53_def bitlen.simps toFixed2_def nearest_hundredths_def
          digits.simps digit_def Let_def)
  have two: "\<forall>ps. Some [\<lparr>className = ''cat'', probability = Number 3842471202072507 (- 52)\<rparr>,
               \<lparr>className = ''dog'', probability = Number 3602879701896397 (- 55)\<rparr>] = Some ps
      \<longrightarrow> (\<forall>p \<in> set ps. is_probability (probability p))"
    using prob by simp
  have none: "\<forall>ps. (None :: prediction list option) = Some ps
      \<longrightarrow> (\<forall>p \<in> set ps. is_probability (probability p))"
    and empty: "\<forall>ps. Some ([] :: prediction list) = Some ps
      \<longrightarrow> (\<forall>p \<in> set ps. is_probability (probability p))"
    by simp_all
  show ?thesis
    using updatePredictions_entries [OF two, of "page\<lparr>predictionsList := [''No hay predicciones'']\<rparr>"]
      updatePredictions_entries [OF none, of "page\<lparr>predictionsList := [''a'', ''b'']\<rparr>"]
      updatePredictions_entries [OF empty, of "page\<lparr>predictionsList := [''a'', ''b'']\<rparr>"]
      cat dog prob
    by (simp add: toFixed2_two_decimals)
qed

text \<open>
  Claim C5. On a non-empty list of video devices the fallback of \<^verbatim>\<open>startCamera\<close> chooses
  the first device whose label contains, in any letter case, one of the words back, rear,
  environment, trasera, posterior; when no label does, it chooses the last device.
\<close>

theorem chosen_first_match_else_last:
  assumes "vds \<noteq> []"
  shows "((\<exists>d \<in> set vds. matches_keyword (label d)) \<longrightarrow>
            (\<exists>pre d post. vds = pre @ d # post \<and> matches_keyword (label d) \<and>
               (\<forall>x \<in> set pre. \<not> matches_keyword (label x)) \<and> chosen vds = Some d))
       \<and> ((\<forall>d \<in> set vds. \<not> matches_keyword (label d)) \<longrightarrow> chosen vds = Some (last vds))"
proof (intro conjI impI)
  assume "\<exists>d \<in> set vds. matches_keyword (label d)"
  then obtain d where d: "find (\<lambda>d. backRegex_test (label d)) vds = Some d"
    by (cases "find (\<lambda>d. backRegex_test (label d)) vds") (auto simp: find_None_iff backRegex_test_iff)
  from find_first [OF d] obtain pre post where
    "vds = pre @ d # post \<and> backRegex_test (label d) \<and> (\<forall>x \<in> set pre. \<not> backRegex_test (label x))"
    by blast
  moreover from d have "chosen vds = Some d" by (simp add: chosen_def)
  ultimately show "\<exists>pre d post. vds = pre @ d # post \<and> matches_keyword (label d) \<and>
               (\<forall>x \<in> set pre. \<not> matches_keyword (label x)) \<and> chosen vds = Some d"
    by (auto simp: backRegex_test_iff)
next
  assume "\<forall>d \<in> set vds. \<not> matches_keyword (label d)"
  then have "find (\<lambda>d. backRegex_test (label d)) vds = None"
    by (simp add: find_None_iff backRegex_test_iff)
  with assms show "chosen vds = Some (last vds)"
    by (simp add: chosen_def last_conv_nth)
qed

text \<open>The two examples of the specification.\<close>

theorem chosen_first_match_else_last_witness:
  "[\<lparr>kind = ''videoinput'', label = ''Front Camera'', deviceId = ''a''\<rparr>,
    \<lparr>kind = ''videoinput'', label = ''Back Camera'', deviceId = ''b''\<rparr>] \<noteq> []
   \<and> matches_keyword ''Back Camera'' \<and> \<not> matches_keyword ''Front Camera''
   \<and> chosen [\<lparr>kind = ''videoinput'', label = ''Front Camera'', deviceId = ''a''\<rparr>,
              \<lparr>kind = ''videoinput'', label = ''Back Camera'', deviceId = ''b''\<rparr>]
       = Some \<lparr>kind = ''videoinput'', label = ''Back Camera'', deviceId = ''b''\<rparr>
   \<and> \<not> matches_keyword ''Camera A'' \<and> \<not> matches_keyword ''Camera B''
   \<and> chosen [\<lparr>kind = ''videoinput'', label = ''Camera A'', deviceId = ''a''\<rparr>,
              \<lparr>kind = ''videoinput'', label = ''Camera B'', deviceId = ''b''\<rparr>]
       = Some \<lparr>kind = ''videoinput'', label = ''Camera B'', deviceId = ''b''\<rparr>"
proof -
  have m: "matches_keyword ''Back Camera''" "\<not> matches_keyword ''Front Camera''"
    "\<not> matches_keyword ''Camera A''" "\<not> matches_keyword ''Camera B''"
    by (simp_all add: backRegex_test_iff [symmetric] backRegex_test_def back_words_def lower_def)
  show ?thesis
    using m
      chosen_first_match_else_last
        [of "[\<lparr>kind = ''videoinput'', label = ''Front Camera'', deviceId = ''a''\<rparr>,
              \<lparr>kind = ''videoinput'', label = ''Back Camera'', deviceId = ''b''\<rparr>]"]
      chosen_first_match_else_last
        [of "[\<lparr>kind = ''videoinput'', label = ''Camera A'', deviceId = ''a''\<rparr>,
              \<lparr>kind = ''videoinput'', label = ''Camera B'', deviceId = ''b''\<rparr>]"]
    by (auto simp: Cons_eq_append_conv)
qed

text \<open>
  Claim C6 fails on the script. \<^verbatim>\<open>loadModel\<close> caches the model it has loaded, not the
  load under way: the test \<^verbatim>\<open>if (model) return model\<close> and the assignment to \<^verbatim>\<open>model\<close> are
  separated by \<^verbatim>\<open>await window.mobilenet.load()\<close>. Two calls of the exported \<^verbatim>\<open>startCamera\<close>
  whose streams arrive before the first load is over each call \<^verbatim>\<open>mobilenet.load\<close>. After
  the first load has succeeded \<^verbatim>\<open>loadModel\<close> returns its model; after the second it
  returns another one, and \<^verbatim>\<open>mobilenet.load\<close> has been called twice.
\<close>

theorem model_loaded_twice:
  "model (run [DOMContentLoaded, CallStartCamera, Settle 0 (Stream 1), Settle 0 (Stream 1),
       Settle 1 Loaded] page) = Some 0
   \<and> fst (loadModel (run [DOMContentLoaded, CallStartCamera, Settle 0 (Stream 1), Settle 0 (Stream 1),
       Settle 1 Loaded] page)) = Returned 0
   \<and> fst (loadModel (run [DOMContentLoaded, CallStartCamera, Settle 0 (Stream 1), Settle 0 (Stream 1),
       Settle 1 Loaded, Settle 2 Loaded] page)) = Returned 1
   \<and> loads (run [DOMContentLoaded, CallStartCamera, Settle 0 (Stream 1), Settle 0 (Stream 1),
       Settle 1 Loaded, Settle 2 Loaded] page) = 2"
  by (simp add: run_defs)

text \<open>
  What does hold: once a model is cached and no call of \<^verbatim>\<open>mobilenet.load\<close> is under way,
  then whatever happens later, \<^verbatim>\<open>loadModel\<close> returns that same model at once, leaves the
  state as it is, and \<^verbatim>\<open>mobilenet.load\<close> is not called again.
\<close>

lemma loadModel_in_sequence:
  assumes "model s = Some m" and "\<forall>k. AwaitLoad k \<notin> set (pending s)"
  shows "loadModel (run evs s) = (Returned m, run evs s) \<and> loads (run evs s) = loads s"
proof -
  from assms have "cached m (loads s) s" by (simp add: cached_def)
  then have "cached m (loads s) (run evs s)" by (rule cached_run)
  then show ?thesis by (simp add: cached_loadModel) (simp add: cached_def)
qed

text \<open>
  Claim C7. When the platform rejects the load that \<^verbatim>\<open>loadModel\<close> awaits, the handle and
  the timers stay as they were (and with no model cached there is neither), the status
  heading reads ``Error cargando modelo'', both errors are logged, and nothing is started
  again: the suspended calls are the former ones less this one, and \<^verbatim>\<open>mobilenet.load\<close> is
  not called.
\<close>

theorem model_load_failure:
  assumes "boot s0"
    and "i < length (pending (run evs s0))"
    and "pending (run evs s0) ! i = AwaitLoad k"
  shows "predictInterval (step (Settle i (Rejected err)) (run evs s0)) = predictInterval (run evs s0)
       \<and> timers (step (Settle i (Rejected err)) (run evs s0)) = timers (run evs s0)
       \<and> (model (run evs s0) = None \<longrightarrow>
            predictInterval (step (Settle i (Rejected err)) (run evs s0)) = None \<and>
            timers (step (Settle i (Rejected err)) (run evs s0)) = [])
       \<and> h3 (step (Settle i (Rejected err)) (run evs s0)) = Some ''Error cargando modelo''
       \<and> console (step (Settle i (Rejected err)) (run evs s0))
            = console (run evs s0) @ [Error_mobilenet err, Error_no_model]
       \<and> pending (step (Settle i (Rejected err)) (run evs s0)) = remove_nth i (pending (run evs s0))
       \<and> loads (step (Settle i (Rejected err)) (run evs s0)) = loads (run evs s0)
       \<and> model (step (Settle i (Rejected err)) (run evs s0)) = model (run evs s0)"
proof -
  define s where "s = run evs s0"
  from assms(1) have snd: "sound s" by (simp add: s_def boot_sound sound_run)
  from assms(2,3) have "AwaitLoad k \<in> set (pending s)"
    unfolding s_def by (metis nth_mem)
  with snd obtain old where h: "h3 s = Some old" by (auto simp: sound_def)
  from snd have idle: "model s = None \<longrightarrow> predictInterval s = None \<and> timers s = []"
    by (simp add: sound_def)
  from assms(2,3) h have
    "step (Settle i (Rejected err)) s =
       s\<lparr>pending := remove_nth i (pending s),
         console := console s @ [Error_mobilenet err, Error_no_model],
         h3 := Some ''Error cargando modelo''\<rparr>"
    by (simp add: s_def [symmetric] settle_def startPredictions_resume_def loadModel_resume_def
          startPredictions_loaded_def Let_def)
  with idle show ?thesis unfolding s_def [symmetric] by simp
qed

text \<open>The page has started the camera and waits for the model; the load is rejected.\<close>

theorem model_load_failure_witness:
  "boot page
   \<and> 1 < length (pending (run [DOMContentLoaded, Settle 0 (Stream 1)] page))
   \<and> pending (run [DOMContentLoaded, Settle 0 (Stream 1)] page) ! 1 = AwaitLoad 0
   \<and> model (run [DOMContentLoaded, Settle 0 (Stream 1)] page) = None
   \<and> predictInterval (step (Settle 1 (Rejected (PlatformError ''network'')))
        (run [DOMContentLoaded, Settle 0 (Stream 1)] page)) = None
   \<and> timers (step (Settle 1 (Rejected (PlatformError ''network'')))
        (run [DOMContentLoaded, Settle 0 (Stream 1)] page)) = []
   \<and> h3 (step (Settle 1 (Rejected (PlatformError ''network'')))
        (run [DOMContentLoaded, Settle 0 (Stream 1)] page)) = Some ''Error cargando modelo''
   \<and> pending (step (Settle 1 (Rejected (PlatformError ''network'')))
        (run [DOMContentLoaded, Settle 0 (Stream 1)] page)) = [AwaitPlay]
   \<and> loads (step (Settle 1 (Rejected (PlatformError ''network'')))
        (run [DOMContentLoaded, Settle 0 (Stream 1)] page)) = 1"
proof -
  have p: "boot page"
    "1 < length (pending (run [DOMContentLoaded, Settle 0 (Stream 1)] page))"
    "pending (run [DOMContentLoaded, Settle 0 (Stream 1)] page) ! 1 = AwaitLoad 0"
    "model (run [DOMContentLoaded, Settle 0 (Stream 1)] page) = None"
    "pending (run [DOMContentLoaded, Settle 0 (Stream 1)] page) = [AwaitPlay, AwaitLoad 0]"
    "loads (run [DOMContentLoaded, Settle 0 (Stream 1)] page) = 1"
    "predictInterval (run [DOMContentLoaded, Settle 0 (Stream 1)] page) = None"
    "timers (run [DOMContentLoaded, Settle 0 (Stream 1)] page) = []"
    by (simp_all add: run_defs)
  from model_load_failure [OF p(1) p(2) p(3), of "PlatformError ''network''"] p
  show ?thesis by (simp del: step.simps add: remove_nth_def)
qed

text \<open>
  Claim C8. When the platform rejects a classification that \<^verbatim>\<open>runOnce\<close> awaits, the error
  is logged and the list shown is left as it is; no timer is cancelled (after a pass
  started by a timer the timers and the handle are unchanged), and every tick of a
  running timer afterwards starts a classification again.
\<close>

theorem classification_failure_skipped:
  assumes "boot s0"
    and "i < length (pending (run evs s0))"
    and "pending (run evs s0) ! i = AwaitClassify first"
  shows "predictionsList (step (Settle i (Rejected err)) (run evs s0)) = predictionsList (run evs s0)
       \<and> console (step (Settle i (Rejected err)) (run evs s0))
            = console (run evs s0) @ [Error_classify err]
       \<and> pending (step (Settle i (Rejected err)) (run evs s0)) = remove_nth i (pending (run evs s0))
       \<and> set (timers (run evs s0)) \<subseteq> set (timers (step (Settle i (Rejected err)) (run evs s0)))
       \<and> (\<not> first \<longrightarrow>
            timers (step (Settle i (Rejected err)) (run evs s0)) = timers (run evs s0) \<and>
            predictInterval (step (Settle i (Rejected err)) (run evs s0)) = predictInterval (run evs s0))
       \<and> (\<forall>h \<in> set (timers (step (Settle i (Rejected err)) (run evs s0))).
            pending (step (Tick h) (step (Settle i (Rejected err)) (run evs s0)))
              = pending (step (Settle i (Rejected err)) (run evs s0)) @ [AwaitClassify False])"
proof -
  define s where "s = run evs s0"
  define s' where "s' = step (Settle i (Rejected err)) s"
  from assms(1) have snd: "sound s" by (simp add: s_def boot_sound sound_run)
  from assms(2,3) have "AwaitClassify first \<in> set (pending s)"
    unfolding s_def by (metis nth_mem)
  with snd obtain m where m: "model s = Some m" by (auto simp: sound_def)
  from assms(2,3) have s': "s' =
      (if first then setInterval (s\<lparr>pending := remove_nth i (pending s),
                                     console := console s @ [Error_classify err]\<rparr>)
       else s\<lparr>pending := remove_nth i (pending s), console := console s @ [Error_classify err]\<rparr>)"
    by (simp add: s'_def s_def [symmetric] settle_def runOnce_resume_def)
  with m have m': "model s' = Some m" by (simp add: setInterval_def)
  have tick: "pending (step (Tick h) s') = pending s' @ [AwaitClassify False]"
    if "h \<in> set (timers s')" for h
    using that m' by (simp add: runOnce_def)
  from s' have "predictionsList s' = predictionsList s"
    and "console s' = console s @ [Error_classify err]"
    and "pending s' = remove_nth i (pending s)"
    and "set (timers s) \<subseteq> set (timers s')"
    and "\<not> first \<longrightarrow> timers s' = timers s \<and> predictInterval s' = predictInterval s"
    by (auto simp: setInterval_def)
  with tick show ?thesis unfolding s'_def s_def by blast
qed

text \<open>The loop runs, a tick starts a classification, and the classifier fails.\<close>

theorem classification_failure_skipped_witness:
  "boot page
   \<and> 1 < length (pending (run [DOMContentLoaded, Settle 0 (Stream 1), Settle 1 Loaded,
         Settle 1 (Classified (Some [\<lparr>className = ''cat'', probability = Number 3 (- 2)\<rparr>])),
         Tick 1] page))
   \<and> pending (run [DOMContentLoaded, Settle 0 (Stream 1), Settle 1 Loaded,
         Settle 1 (Classified (Some [\<lparr>className = ''cat'', probability = Number 3 (- 2)\<rparr>])),
         Tick 1] page) ! 1 = AwaitClassify False
   \<and> predictionsList (step (Settle 1 (Rejected (PlatformError ''busy'')))
        (run [DOMContentLoaded, Settle 0 (Stream 1), Settle 1 Loaded,
         Settle 1 (Classified (Some [\<lparr>className = ''cat'', probability = Number 3 (- 2)\<rparr>])),
         Tick 1] page)) = [''cat'' @ dash @ ''75.00%'']
   \<and> timers (step (Settle 1 (Rejected (PlatformError ''busy'')))
        (run [DOMContentLoaded, Settle 0 (Stream 1), Settle 1 Loaded,
         Settle 1 (Classified (Some [\<lparr>className = ''cat'', probability = Number 3 (- 2)\<rparr>])),
         Tick 1] page)) = [1]
   \<and> pending (step (Tick 1) (step (Settle 1 (Rejected (PlatformError ''busy'')))
        (run [DOMContentLoaded, Settle 0 (Stream 1), Settle 1 Loaded,
         Settle 1 (Classified (Some [\<lparr>className = ''cat'', probability = Number 3 (- 2)\<rparr>])),
         Tick 1] page))) = [AwaitPlay, AwaitClassify False]"
proof -
  define evs where "evs = [DOMContentLoaded, Settle 0 (Stream 1), Settle 1 Loaded,
         Settle 1 (Classified (Some [\<lparr>className = ''cat'', probability = Number 3 (- 2)\<rparr>])),
         Tick 1]"
  have half: "toFixed2 (times100 (Number 3 (- 2))) = ''75.00''"
    by (simp add: times100_def round53_def bitlen.simps toFixed2_def nearest_hundredths_def
          digits.simps digit_def Let_def)
  have p: "boot page"
    "1 < length (pending (run evs page))"
    "pending (run evs page) ! 1 = AwaitClassify False"
    "pending (run evs page) = [AwaitPlay, AwaitClassify False]"
    "predictionsList (run evs page) = [''cat'' @ dash @ ''75.00%'']"
    "timers (run evs page) = [1]"
    "predictInterval (run evs page) = Some 1"
    by (simp_all add: evs_def run_defs textContent_def half)
  from classification_failure_skipped [OF p(1) p(2) p(3), of "PlatformError ''busy''"] p
  show ?thesis unfolding evs_def by (simp del: step.simps add: remove_nth_def)
qed

text \<open>
  Claim C9. \<^verbatim>\<open>stopCamera\<close> with no current stream returns at once: the state, with the
  stream reference, the handle, the video element and the list shown, is unchanged.
\<close>

theorem stopCamera_idle:
  assumes "currentStream s = None"
  shows "stopCamera s = s"
  using assms by (simp add: stopCamera_def)

theorem stopCamera_idle_witness:
  "currentStream (page\<lparr>predictionsList := [''a'']\<rparr>) = None
   \<and> stopCamera (page\<lparr>predictionsList := [''a'']\<rparr>) = page\<lparr>predictionsList := [''a'']\<rparr>"
proof -
  have c: "currentStream (page\<lparr>predictionsList := [''a'']\<rparr>) = None"
    by (simp add: page_def)
  from stopCamera_idle [OF c] c show ?thesis by simp
qed

text \<open>
  Claim C10. Without \<^verbatim>\<open>navigator.mediaDevices.getUserMedia\<close>, \<^verbatim>\<open>startCamera\<close> shows the alert
  and returns: apart from the alert the state is unchanged, so no call is suspended, no
  stream is acquired, no model is loaded and no timer is set.
\<close>

theorem startCamera_unavailable:
  assumes "\<not> mediaDevices s"
  shows "startCamera s = s\<lparr>alerts := alerts s @ [Alert_unavailable]\<rparr>"
  using assms by (simp add: startCamera_def)

theorem startCamera_unavailable_witness:
  "\<not> mediaDevices (page\<lparr>mediaDevices := False\<rparr>)
   \<and> startCamera (page\<lparr>mediaDevices := False\<rparr>)
       = page\<lparr>mediaDevices := False, alerts := [Alert_unavailable]\<rparr>"
proof -
  have c: "\<not> mediaDevices (page\<lparr>mediaDevices := False\<rparr>)" by simp
  from startCamera_unavailable [OF c] show ?thesis by (simp add: page_def)
qed

end
